theory Spec2Isabelle
  imports Main "HOL-Library.Word"
begin

section \<open>The BMP encoder of canvas-to-bmp.ts\<close>

text \<open>
  The development embeds \<^verbatim>\<open>CanvasToBMP.toArrayBuffer\<close> (src/canvas-to-bmp.ts,
  lines 40-96).  Conventions of the embedding:
  \<^item> A byte is an \<open>8 word\<close>; a byte buffer (\<^verbatim>\<open>ArrayBuffer\<close>,
    \<^verbatim>\<open>Uint8ClampedArray\<close>) is a list of bytes.
  \<^item> The numbers the method computes with are non-negative integers, modelled as
    \<open>nat\<close>: a canvas' \<^verbatim>\<open>width\<close> and \<^verbatim>\<open>height\<close> are unsigned in the DOM, and every
    intermediate value stays an integer.  Double precision is exact on them as long as
    they stay below \<open>2^53\<close>, which any buffer that fits in memory guarantees.
  \<^item> The canvas is the record of what the method reads from it: its width, its
    height and its bitmap (RGBA, row-major, top row first).  The method reaches the
    bitmap through \<^verbatim>\<open>getImageData(0, 0, w, h)\<close> only, which is modelled with the two
    properties the DOM gives it: it throws on an empty rectangle, and what it returns
    has exactly \<open>4 * w * h\<close> bytes.
  \<^item> A thrown exception is the \<open>Inl\<close> branch of the result: the \<^verbatim>\<open>IndexSizeError\<close>
    of \<^verbatim>\<open>getImageData\<close>, or the \<^verbatim>\<open>RangeError\<close> of the typed-array and
    \<^verbatim>\<open>DataView\<close> built-ins.
  \<^item> The typed-array view \<^verbatim>\<open>data32\<close> reads little-endian, as on every platform
    the comment \<^verbatim>\<open>// get ABGR\<close> of the source is right for.
\<close>

type_synonym u8 = "8 word"

datatype error = RangeError | IndexSizeError

record canvas =
  width :: nat
  height :: nat
  imageData :: "u8 list"

text \<open>The variables of \<^verbatim>\<open>toArrayBuffer\<close> that its helpers and its loop mutate:
  the buffer \<^verbatim>\<open>file\<close> (written through \<^verbatim>\<open>view\<close>), the cursor \<^verbatim>\<open>pos\<close> and the
  read index \<^verbatim>\<open>s\<close>.\<close>

record encoder =
  file_buf :: "u8 list"
  pos :: nat
  s :: nat

definition and_then :: "error + 'a \<Rightarrow> ('a \<Rightarrow> error + 'b) \<Rightarrow> error + 'b" where
  "and_then m f = (case m of Inl e \<Rightarrow> Inl e | Inr x \<Rightarrow> f x)"

lemma and_then_cong [fundef_cong]:
  "m = m' \<Longrightarrow> (\<And>x. m' = Inr x \<Longrightarrow> f x = f' x) \<Longrightarrow> and_then m f = and_then m' f'"
  by (simp add: and_then_def split: sum.splits)

subsection \<open>Built-ins\<close>

text \<open>\<^verbatim>\<open>getImageData(0, 0, sw, sh)\<close> on the 2D context of the canvas, as the method calls
  it, with the rectangle of the whole bitmap.  The DOM throws an \<^verbatim>\<open>IndexSizeError\<close> when
  \<open>sw\<close> or \<open>sh\<close> is 0.  Otherwise the data has four bytes for each of the \<open>sw * sh\<close>
  pixels: those of the bitmap, and transparent black where the bitmap has none.  A
  canvas whose bitmap has \<open>4 * width * height\<close> bytes gets its bitmap back.\<close>

definition getImageData :: "canvas \<Rightarrow> nat \<Rightarrow> nat \<Rightarrow> error + u8 list" where
  "getImageData canvas sw sh =
     (if sw = 0 \<or> sh = 0 then Inl IndexSizeError
      else Inr (take (sw * sh * 4) (imageData canvas @ replicate (sw * sh * 4) 0)))"

text \<open>\<^verbatim>\<open>new ArrayBuffer(n)\<close>: \<open>n\<close> bytes, all zero.\<close>

definition ArrayBuffer :: "nat \<Rightarrow> u8 list" where
  "ArrayBuffer n = replicate n 0"

text \<open>\<^verbatim>\<open>new Uint32Array(buffer)\<close> throws unless the byte length is a multiple of 4.
  The view shares the bytes of the buffer.\<close>

definition Uint32Array :: "u8 list \<Rightarrow> error + u8 list" where
  "Uint32Array buffer = (if length buffer mod 4 = 0 then Inr buffer else Inl RangeError)"

text \<open>\<^verbatim>\<open>data32[i]\<close>: the little-endian 32-bit number at bytes \<open>4i .. 4i+3\<close>, and
  \<^verbatim>\<open>undefined\<close> (\<open>None\<close>) past the end.\<close>

definition data32_at :: "u8 list \<Rightarrow> nat \<Rightarrow> nat option" where
  "data32_at data32 i =
     (if i < length data32 div 4
      then Some (unat (data32 ! (4 * i)) + 256 * unat (data32 ! (4 * i + 1))
                 + 65536 * unat (data32 ! (4 * i + 2)) + 16777216 * unat (data32 ! (4 * i + 3)))
      else None)"

text \<open>\<^verbatim>\<open>v >>> n\<close> on a non-negative integer: reduce to 32 bits, shift right.\<close>

definition ushr :: "nat \<Rightarrow> nat \<Rightarrow> nat" where
  "ushr v n = (v mod 2 ^ 32) div 2 ^ (n mod 32)"

text \<open>The \<^verbatim>\<open>DataView\<close> writers on \<^verbatim>\<open>file\<close>.  Each throws when the bytes it writes do
  not lie inside the buffer, and stores its argument modulo the width of the field;
  the 16- and 32-bit writers are always called with the little-endian flag.\<close>

definition setUint8 :: "nat \<Rightarrow> nat \<Rightarrow> encoder \<Rightarrow> error + encoder" where
  "setUint8 byteOffset v st =
     (if byteOffset + 1 \<le> length (file_buf st)
      then Inr (st\<lparr>file_buf := (file_buf st)[byteOffset := of_nat (v mod 256)]\<rparr>)
      else Inl RangeError)"

definition setUint16 :: "nat \<Rightarrow> nat \<Rightarrow> encoder \<Rightarrow> error + encoder" where
  "setUint16 byteOffset v st =
     (if byteOffset + 2 \<le> length (file_buf st)
      then Inr (st\<lparr>file_buf := (file_buf st)
                  [byteOffset := of_nat (v mod 256),
                   byteOffset + 1 := of_nat (v div 256 mod 256)]\<rparr>)
      else Inl RangeError)"

definition setUint32 :: "nat \<Rightarrow> nat \<Rightarrow> encoder \<Rightarrow> error + encoder" where
  "setUint32 byteOffset v st =
     (if byteOffset + 4 \<le> length (file_buf st)
      then Inr (st\<lparr>file_buf := (file_buf st)
                  [byteOffset := of_nat (v mod 256),
                   byteOffset + 1 := of_nat (v div 256 mod 256),
                   byteOffset + 2 := of_nat (v div 65536 mod 256),
                   byteOffset + 3 := of_nat (v div 16777216 mod 256)]\<rparr>)
      else Inl RangeError)"

subsection \<open>The helpers \<^verbatim>\<open>setU16\<close> and \<^verbatim>\<open>setU32\<close>\<close>

definition setU16 :: "nat \<Rightarrow> encoder \<Rightarrow> error + encoder" where
  "setU16 data st = and_then (setUint16 (pos st) data st) (\<lambda>st. Inr (st\<lparr>pos := pos st + 2\<rparr>))"

definition setU32 :: "nat \<Rightarrow> encoder \<Rightarrow> error + encoder" where
  "setU32 data st = and_then (setUint32 (pos st) data st) (\<lambda>st. Inr (st\<lparr>pos := pos st + 4\<rparr>))"

subsection \<open>The stride\<close>

text \<open>\<^verbatim>\<open>stride = Math.floor((24 * w + 23) / 24) * 3\<close> (line 49).\<close>

definition stride :: "nat \<Rightarrow> nat" where
  "stride w = ((24 * w + 23) div 24) * 3"

subsection \<open>The pixel loops\<close>

text \<open>The inner loop (lines 78-88).  When \<^verbatim>\<open>data32[s]\<close> is \<^verbatim>\<open>undefined\<close>, \<^verbatim>\<open>r\<close> is
  \<^verbatim>\<open>NaN\<close> and \<^verbatim>\<open>g\<close>, \<^verbatim>\<open>b\<close> are 0; \<^verbatim>\<open>setUint8\<close> stores 0 for all three.\<close>

function row_loop :: "u8 list \<Rightarrow> nat \<Rightarrow> nat \<Rightarrow> nat \<Rightarrow> encoder \<Rightarrow> error + encoder" where
  "row_loop data32 w3 p x st =
     (if x < w3 then
        (let (r, g, b) =
               (case data32_at data32 (s st) of
                  None \<Rightarrow> (0, 0, 0)
                | Some v \<Rightarrow> (v mod 256, ushr v 8 mod 256, ushr v 16 mod 256))
         in and_then (setUint8 (p + x) b (st\<lparr>s := s st + 1\<rparr>)) (\<lambda>st.
            and_then (setUint8 (p + x + 1) g st) (\<lambda>st.
            and_then (setUint8 (p + x + 2) r st) (\<lambda>st.
            row_loop data32 w3 p (x + 3) st))))
      else Inr st)"
  by pat_completeness auto
termination
  by (relation "measure (\<lambda>(data32, w3, p, x, st). w3 - x)") auto

text \<open>The outer loop (lines 76-89).\<close>

function rows_loop :: "u8 list \<Rightarrow> nat \<Rightarrow> nat \<Rightarrow> nat \<Rightarrow> nat \<Rightarrow> encoder \<Rightarrow> error + encoder" where
  "rows_loop data32 w3 h strd y st =
     (if y < h then
        (let p = 14 + 40 + ((h - y - 1) * strd)
         in and_then (row_loop data32 w3 p 0 st) (\<lambda>st.
            rows_loop data32 w3 h strd (y + 1) st))
      else Inr st)"
  by pat_completeness auto
termination
  by (relation "measure (\<lambda>(data32, w3, h, strd, y, st). h - y)") auto

subsection \<open>\<^verbatim>\<open>toArrayBuffer\<close>\<close>

definition toArrayBuffer :: "canvas \<Rightarrow> error + u8 list" where
  "toArrayBuffer canvas =
     (let w = width canvas;
          h = height canvas;
          w3 = w * 3
      in and_then (getImageData canvas w h) (\<lambda>idata.
         and_then (Uint32Array idata) (\<lambda>data32.
         let headerSize = 14;
             DIBHeaderSize = 40;
             strd = stride w;
             pixelArraySize = strd * h;
             fileLength = headerSize + DIBHeaderSize + pixelArraySize;
             st = \<lparr>file_buf = ArrayBuffer fileLength, pos = 0, s = 0\<rparr>
         in and_then (setU16 0x4d42 st) (\<lambda>st.
            and_then (setU32 fileLength st) (\<lambda>st.
            and_then (Inr (st\<lparr>pos := pos st + 4\<rparr>)) (\<lambda>st.
            and_then (setU32 (headerSize + DIBHeaderSize) st) (\<lambda>st.
            and_then (setU32 DIBHeaderSize st) (\<lambda>st.
            and_then (setU32 w st) (\<lambda>st.
            and_then (setU32 (ushr h 0) st) (\<lambda>st.
            and_then (setU16 1 st) (\<lambda>st.
            and_then (setU16 24 st) (\<lambda>st.
            and_then (setU32 0 st) (\<lambda>st.
            and_then (setU32 pixelArraySize st) (\<lambda>st.
            and_then (setU32 0x2e23 st) (\<lambda>st.
            and_then (setU32 0x2e23 st) (\<lambda>st.
            and_then (Inr (st\<lparr>pos := pos st + 8\<rparr>)) (\<lambda>st.
            and_then (rows_loop data32 w3 h strd 0 st) (\<lambda>st.
            Inr (file_buf st)))))))))))))))))))"

section \<open>Notions used to state the results\<close>

text \<open>The row length the BMP format asks for: \<open>3 * w\<close> rounded up to the next multiple
  of 4, written \<^verbatim>\<open>ceil(width*3 / 4) * 4\<close> in the specification.\<close>

definition stride_spec :: "nat \<Rightarrow> nat" where
  "stride_spec w = ((w * 3 + 3) div 4) * 4"

text \<open>The little-endian integers that start at a byte offset of a buffer.\<close>

definition getUint16 :: "u8 list \<Rightarrow> nat \<Rightarrow> nat" where
  "getUint16 buf off = unat (buf ! off) + 256 * unat (buf ! (off + 1))"

definition getUint32 :: "u8 list \<Rightarrow> nat \<Rightarrow> nat" where
  "getUint32 buf off =
     unat (buf ! off) + 256 * unat (buf ! (off + 1))
     + 65536 * unat (buf ! (off + 2)) + 16777216 * unat (buf ! (off + 3))"

text \<open>The input contract of the specification: at least one pixel in each direction
  and four bytes for each pixel.\<close>

definition valid :: "canvas \<Rightarrow> bool" where
  "valid c \<longleftrightarrow> 1 \<le> width c \<and> 1 \<le> height c
               \<and> length (imageData c) = width c * height c * 4"

text \<open>The bytes a little-endian write leaves in the buffer, and the 54 bytes that the
  header writes of \<^verbatim>\<open>toArrayBuffer\<close> produce for a canvas of width \<open>w\<close> and height
  \<open>h\<close> (lemma \<open>toArrayBuffer_unfold\<close> below derives them from the code).\<close>

definition le16 :: "nat \<Rightarrow> u8 list" where
  "le16 v = [of_nat (v mod 256), of_nat (v div 256 mod 256)]"

definition le32 :: "nat \<Rightarrow> u8 list" where
  "le32 v = [of_nat (v mod 256), of_nat (v div 256 mod 256),
             of_nat (v div 65536 mod 256), of_nat (v div 16777216 mod 256)]"

definition header_bytes :: "nat \<Rightarrow> nat \<Rightarrow> u8 list" where
  "header_bytes w h =
     le16 19778 @ le32 (54 + stride w * h) @ [0, 0, 0, 0] @ le32 54
     @ le32 40 @ le32 w @ le32 (ushr h 0) @ le16 1 @ le16 24 @ le32 0
     @ le32 (stride w * h) @ le32 11811 @ le32 11811 @ [0, 0, 0, 0, 0, 0, 0, 0]"

text \<open>The channels the inner loop extracts from pixel \<open>n\<close> of the 32-bit view, and the
  three bytes it stores for that pixel, in the order it stores them.\<close>

definition rgb_at :: "u8 list \<Rightarrow> nat \<Rightarrow> nat \<times> nat \<times> nat" where
  "rgb_at d n = (case data32_at d n of None \<Rightarrow> (0, 0, 0)
      | Some v \<Rightarrow> (v mod 256, ushr v 8 mod 256, ushr v 16 mod 256))"

definition bgr_bytes :: "u8 list \<Rightarrow> nat \<Rightarrow> u8 list" where
  "bgr_bytes d n = (case rgb_at d n of (r, g, b) \<Rightarrow>
      [of_nat (b mod 256), of_nat (g mod 256), of_nat (r mod 256)])"

section \<open>The sequencing operator\<close>

declare row_loop.simps [simp del] rows_loop.simps [simp del]

lemma and_then_weak_cong: "m = m' \<Longrightarrow> and_then m f = and_then m' f"
  by simp

lemma and_then_Inr: "and_then (Inr x) f = f x"
  by (simp add: and_then_def)

lemma and_then_Inl: "and_then (Inl e) f = Inl e"
  by (simp add: and_then_def)

section \<open>The stride, as computed\<close>

lemma stride_eq: "stride w = 3 * w"
  by (simp add: stride_def)

text \<open>It is the padded row length exactly for the widths that need no padding.\<close>

lemma stride_padded_iff: "stride w = stride_spec w \<longleftrightarrow> w mod 4 = 0"
  unfolding stride_eq stride_spec_def by presburger

section \<open>The header writes\<close>

text \<open>While the headers are written, the cursor is the length of what has been written
  so far, and every write replaces zero bytes right after it.\<close>

lemma setU16_cursor:
  "setU16 v \<lparr>file_buf = pre @ a # b # post, pos = length pre, s = q\<rparr>
   = Inr \<lparr>file_buf = (pre @ [of_nat (v mod 256), of_nat (v div 256 mod 256)]) @ post,
          pos = length (pre @ [of_nat (v mod 256), of_nat (v div 256 mod 256)]), s = q\<rparr>"
  by (simp add: setU16_def setUint16_def and_then_def list_update_append)

lemma setU32_cursor:
  "setU32 v \<lparr>file_buf = pre @ a # b # c # d # post, pos = length pre, s = q\<rparr>
   = Inr \<lparr>file_buf = (pre @ [of_nat (v mod 256), of_nat (v div 256 mod 256),
                  of_nat (v div 65536 mod 256), of_nat (v div 16777216 mod 256)]) @ post,
          pos = length (pre @ [of_nat (v mod 256), of_nat (v div 256 mod 256),
                  of_nat (v div 65536 mod 256), of_nat (v div 16777216 mod 256)]), s = q\<rparr>"
  by (simp add: setU32_def setUint32_def and_then_def list_update_append)

lemma skip_cursor4:
  "\<lparr>file_buf = pre @ a # b # c # d # post, pos = length pre, s = q\<rparr>
     \<lparr>pos := pos \<lparr>file_buf = pre @ a # b # c # d # post, pos = length pre, s = q\<rparr> + 4\<rparr>
   = \<lparr>file_buf = (pre @ [a, b, c, d]) @ post, pos = length (pre @ [a, b, c, d]), s = q\<rparr>"
  by simp

lemma skip_cursor8:
  "\<lparr>file_buf = pre @ a # b # c # d # e # f # g # h # post, pos = length pre, s = q\<rparr>
     \<lparr>pos := pos \<lparr>file_buf = pre @ a # b # c # d # e # f # g # h # post,
                    pos = length pre, s = q\<rparr> + 8\<rparr>
   = \<lparr>file_buf = (pre @ [a, b, c, d, e, f, g, h]) @ post,
      pos = length (pre @ [a, b, c, d, e, f, g, h]), s = q\<rparr>"
  by simp

lemma replicate_54:
  "replicate 54 (0::u8) =
        0 # 0 # 0 # 0 # 0 # 0 # 0 # 0 # 0 # 0 # 0 # 0 # 0 # 0 # 0 # 0 # 0 # 0 # 0 #
        0 # 0 # 0 # 0 # 0 # 0 # 0 # 0 # 0 # 0 # 0 # 0 # 0 # 0 # 0 # 0 # 0 # 0 # 0 #
        0 # 0 # 0 # 0 # 0 # 0 # 0 # 0 # 0 # 0 # 0 # 0 # 0 # 0 # 0 # 0
        # []"
  by (simp add: numeral_eq_Suc)

lemma ArrayBuffer_54: "ArrayBuffer (14 + 40 + n) = replicate 54 0 @ replicate n 0"
  by (simp add: ArrayBuffer_def flip: replicate_add)

lemma ArrayBuffer_header:
  "\<lparr>file_buf = ArrayBuffer (14 + 40 + n), pos = 0, s = 0\<rparr> =
   \<lparr>file_buf = [] @
        0 # 0 # 0 # 0 # 0 # 0 # 0 # 0 # 0 # 0 # 0 # 0 # 0 # 0 # 0 # 0 # 0 # 0 # 0 #
        0 # 0 # 0 # 0 # 0 # 0 # 0 # 0 # 0 # 0 # 0 # 0 # 0 # 0 # 0 # 0 # 0 # 0 # 0 #
        0 # 0 # 0 # 0 # 0 # 0 # 0 # 0 # 0 # 0 # 0 # 0 # 0 # 0 # 0 # 0
        # replicate n 0,
      pos = length ([] :: u8 list), s = 0\<rparr>"
  unfolding ArrayBuffer_54 replicate_54 by simp

lemma cursor_lengths:
  "length ([] :: u8 list) = 0"
  "length (pre @ [a, b]) = length pre + 2"
  "length (pre @ [a, b, c, d]) = length pre + 4"
  "length (pre @ [a, b, c, d, e, f, g, h]) = length pre + 8"
  by simp_all

lemma header_chain:
  "and_then (setU16 mg \<lparr>file_buf = ArrayBuffer (14 + 40 + n), pos = 0, s = 0\<rparr>) (\<lambda>st.
   and_then (setU32 fl st) (\<lambda>st.
   and_then (Inr (st\<lparr>pos := pos st + 4\<rparr>)) (\<lambda>st.
   and_then (setU32 off st) (\<lambda>st.
   and_then (setU32 dib st) (\<lambda>st.
   and_then (setU32 w st) (\<lambda>st.
   and_then (setU32 hh st) (\<lambda>st.
   and_then (setU16 pl st) (\<lambda>st.
   and_then (setU16 bpp st) (\<lambda>st.
   and_then (setU32 cmp st) (\<lambda>st.
   and_then (setU32 pas st) (\<lambda>st.
   and_then (setU32 rh st) (\<lambda>st.
   and_then (setU32 rv st) (\<lambda>st.
   and_then (Inr (st\<lparr>pos := pos st + 8\<rparr>)) K)))))))))))))
   = K \<lparr>file_buf = (le16 mg @ le32 fl @ [0, 0, 0, 0] @ le32 off @ le32 dib @ le32 w
                    @ le32 hh @ le16 pl @ le16 bpp @ le32 cmp @ le32 pas @ le32 rh @ le32 rv
                    @ [0, 0, 0, 0, 0, 0, 0, 0]) @ replicate n 0,
        pos = 54, s = 0\<rparr>"
  unfolding ArrayBuffer_header
  apply (simp only: and_then_Inr setU16_cursor setU32_cursor skip_cursor4 skip_cursor8)
  apply (simp only: cursor_lengths)
  apply (simp add: le16_def le32_def)
  done

lemma toArrayBuffer_unfold:
  "toArrayBuffer c =
     and_then (getImageData c (width c) (height c)) (\<lambda>idata.
       if length idata mod 4 = 0 then
         and_then
           (rows_loop idata (width c * 3) (height c) (stride (width c)) 0
              \<lparr>file_buf = header_bytes (width c) (height c)
                           @ replicate (stride (width c) * height c) 0,
               pos = 54, s = 0\<rparr>)
           (\<lambda>st. Inr (file_buf st))
       else Inl RangeError)"
  unfolding toArrayBuffer_def Let_def Uint32Array_def header_chain header_bytes_def
  by (cases "getImageData c (width c) (height c)")
     (simp_all add: and_then_Inr and_then_Inl cong: and_then_weak_cong)

text \<open>What the method reads: nothing from an empty canvas, \<open>4 * w * h\<close> bytes
  otherwise, and the bitmap itself from a canvas that satisfies the input contract.\<close>

lemma getImageData_empty:
  "sw = 0 \<or> sh = 0 \<Longrightarrow> getImageData c sw sh = Inl IndexSizeError"
  by (simp add: getImageData_def)

lemma getImageData_length:
  "getImageData c sw sh = Inr d \<Longrightarrow> length d = sw * sh * 4"
  by (auto simp: getImageData_def split: if_splits)

lemma getImageData_valid:
  "valid c \<Longrightarrow> getImageData c (width c) (height c) = Inr (imageData c)"
  by (simp add: getImageData_def valid_def)

lemma toArrayBuffer_valid:
  "valid c \<Longrightarrow>
   toArrayBuffer c =
     and_then
       (rows_loop (imageData c) (width c * 3) (height c) (stride (width c)) 0
          \<lparr>file_buf = header_bytes (width c) (height c)
                       @ replicate (stride (width c) * height c) 0,
           pos = 54, s = 0\<rparr>)
       (\<lambda>st. Inr (file_buf st))"
  by (simp add: toArrayBuffer_unfold getImageData_valid and_then_Inr)
     (simp add: valid_def)

lemma length_header_bytes: "length (header_bytes w h) = 54"
  by (simp add: header_bytes_def le16_def le32_def)

section \<open>The pixel loops\<close>

lemma setUint8_run:
  "byteOffset < length (file_buf st) \<Longrightarrow>
   setUint8 byteOffset v st
   = Inr (st\<lparr>file_buf := (file_buf st)[byteOffset := of_nat (v mod 256)]\<rparr>)"
  by (simp add: setUint8_def)

lemma row_loop_done: "w3 \<le> x \<Longrightarrow> row_loop d w3 p x st = Inr st"
  by (simp add: row_loop.simps)

lemma row_loop_step:
  "x < w3 \<Longrightarrow> p + x + 2 < length (file_buf st) \<Longrightarrow>
   (case data32_at d (s st) of None \<Rightarrow> (0, 0, 0)
      | Some v \<Rightarrow> (v mod 256, ushr v 8 mod 256, ushr v 16 mod 256)) = (r, g, b) \<Longrightarrow>
   row_loop d w3 p x st = row_loop d w3 p (x + 3)
     (st\<lparr>s := s st + 1,
         file_buf := (file_buf st)[p + x := of_nat (b mod 256), p + x + 1 := of_nat (g mod 256),
            p + x + 2 := of_nat (r mod 256)]\<rparr>)"
  by (subst row_loop.simps) (simp add: setUint8_run and_then_Inr cong: and_then_weak_cong)

text \<open>A row whose \<open>3 * k\<close> remaining bytes fit in the buffer is written without an
  exception: the buffer keeps its length and everything outside the row, and pixel \<open>j\<close>
  of the row holds the bytes of the \<open>j\<close>-th word read.\<close>

lemma row_loop_writes:
  "w3 = x + 3 * k \<Longrightarrow> p + w3 \<le> length (file_buf st) \<Longrightarrow>
   \<exists>st'. row_loop d w3 p x st = Inr st'
       \<and> length (file_buf st') = length (file_buf st)
       \<and> s st' = s st + k
       \<and> (\<forall>i. i < p + x \<or> p + w3 \<le> i \<longrightarrow> file_buf st' ! i = file_buf st ! i)
       \<and> (\<forall>j<k. \<forall>t<3. file_buf st' ! (p + x + 3 * j + t) = bgr_bytes d (s st + j) ! t)"
proof (induction k arbitrary: x st)
  case 0
  then show ?case by (simp add: row_loop_done)
next
  case (Suc k)
  obtain r g b where rgb:
    "(case data32_at d (s st) of None \<Rightarrow> (0, 0, 0)
      | Some v \<Rightarrow> (v mod 256, ushr v 8 mod 256, ushr v 16 mod 256)) = (r, g, b)"
    using prod_cases3 by blast
  define st3 where "st3 = st\<lparr>s := s st + 1,
     file_buf := (file_buf st)[p + x := of_nat (b mod 256), p + x + 1 := of_nat (g mod 256),
        p + x + 2 := of_nat (r mod 256)]\<rparr>"
  from Suc.prems have inside: "x < w3" "p + x + 2 < length (file_buf st)"
    and room: "x + 3 \<le> w3"
    by simp_all
  from inside have step: "row_loop d w3 p x st = row_loop d w3 p (x + 3) st3"
    unfolding st3_def using rgb by (rule row_loop_step)
  from Suc.prems have "w3 = (x + 3) + 3 * k" "p + w3 \<le> length (file_buf st3)"
    by (simp_all add: st3_def)
  from Suc.IH [OF this] obtain st' where st':
    "row_loop d w3 p (x + 3) st3 = Inr st'" "length (file_buf st') = length (file_buf st3)"
    "s st' = s st3 + k"
    "\<forall>i. i < p + (x + 3) \<or> p + w3 \<le> i \<longrightarrow> file_buf st' ! i = file_buf st3 ! i"
    "\<forall>j<k. \<forall>t<3. file_buf st' ! (p + (x + 3) + 3 * j + t) = bgr_bytes d (s st3 + j) ! t"
    by blast
  have first: "\<forall>t<3. file_buf st3 ! (p + x + t) = bgr_bytes d (s st) ! t"
  proof (intro allI impI)
    fix t :: nat
    assume "t < 3"
    then consider "t = 0" | "t = 1" | "t = 2"
      by linarith
    then show "file_buf st3 ! (p + x + t) = bgr_bytes d (s st) ! t"
      using inside(2) by cases (simp_all add: st3_def bgr_bytes_def rgb_at_def rgb)
  qed
  have outside: "\<forall>i. i < p + x \<or> p + w3 \<le> i \<longrightarrow> file_buf st' ! i = file_buf st ! i"
  proof (intro allI impI)
    fix i
    assume i: "i < p + x \<or> p + w3 \<le> i"
    then have "file_buf st' ! i = file_buf st3 ! i"
      using st'(4) by auto
    also from i room have "\<dots> = file_buf st ! i"
      by (auto simp: st3_def)
    finally show "file_buf st' ! i = file_buf st ! i" .
  qed
  have written: "\<forall>j<Suc k. \<forall>t<3. file_buf st' ! (p + x + 3 * j + t) = bgr_bytes d (s st + j) ! t"
  proof (intro allI impI)
    fix j t :: nat
    assume j: "j < Suc k" and t: "t < 3"
    show "file_buf st' ! (p + x + 3 * j + t) = bgr_bytes d (s st + j) ! t"
    proof (cases j)
      case 0
      from t have "file_buf st' ! (p + x + t) = file_buf st3 ! (p + x + t)"
        using st'(4) by simp
      with first t 0 show ?thesis
        by simp
    next
      case (Suc j')
      with j have "j' < k" by simp
      with st'(5) t have
        "file_buf st' ! (p + (x + 3) + 3 * j' + t) = bgr_bytes d (s st3 + j') ! t"
        by blast
      moreover have "p + (x + 3) + 3 * j' + t = p + x + 3 * j + t" "s st3 + j' = s st + j"
        by (simp_all add: Suc st3_def)
      ultimately show ?thesis
        by simp
    qed
  qed
  from st'(1-3) outside written show ?case
    by (simp add: step st3_def)
qed


lemma rows_loop_done: "h \<le> y \<Longrightarrow> rows_loop d w3 h strd y st = Inr st"
  by (simp add: rows_loop.simps)

lemma rows_loop_step:
  "y < h \<Longrightarrow> rows_loop d w3 h strd y st =
     and_then (row_loop d w3 (54 + (h - y - 1) * strd) 0 st)
       (\<lambda>st. rows_loop d w3 h strd (y + 1) st)"
  by (subst rows_loop.simps) (simp cong: and_then_weak_cong)

text \<open>The rows that remain are written without an exception when a row of pixels is
  no longer than the stride and the buffer holds \<open>h\<close> rows after the 54 header bytes:
  the buffer keeps its length, its header and the rows above, and source row \<open>y + m\<close>
  lands in row \<open>h - (y + m) - 1\<close> of the pixel array.\<close>

lemma rows_loop_writes:
  "h = y + n \<Longrightarrow> w3 = 3 * k \<Longrightarrow> w3 \<le> strd \<Longrightarrow> 54 + h * strd \<le> length (file_buf st) \<Longrightarrow>
   \<exists>st'. rows_loop d w3 h strd y st = Inr st'
       \<and> length (file_buf st') = length (file_buf st)
       \<and> s st' = s st + n * k
       \<and> (\<forall>i. i < 54 \<or> 54 + (h - y) * strd \<le> i \<longrightarrow> file_buf st' ! i = file_buf st ! i)
       \<and> (\<forall>m<n. \<forall>j<k. \<forall>t<3.
             file_buf st' ! (54 + (h - (y + m) - 1) * strd + 3 * j + t)
             = bgr_bytes d (s st + m * k + j) ! t)"
proof (induction n arbitrary: y st)
  case 0
  then show ?case by (simp add: rows_loop_done)
next
  case (Suc n)
  define p where "p = 54 + (h - y - 1) * strd"
  from Suc.prems have "y < h" by simp
  then have e: "(h - y - 1) + 1 = h - y" by simp
  have "(h - y - 1) * strd + strd = ((h - y - 1) + 1) * strd"
    by (simp add: add_mult_distrib)
  then have rows: "(h - y - 1) * strd + strd = (h - y) * strd"
    by (simp only: e)
  have "(h - y) * strd \<le> h * strd"
    by (rule mult_le_mono1) simp
  with rows Suc.prems(3,4) have fits: "p + w3 \<le> length (file_buf st)"
    unfolding p_def by linarith
  have next_row: "54 + (h - (y + 1)) * strd = p"
    by (simp add: p_def)
  from rows Suc.prems(3) have this_row: "p + w3 \<le> 54 + (h - y) * strd"
    unfolding p_def by linarith
  from row_loop_writes [of w3 0 k p st d] Suc.prems(2) fits obtain st1 where st1:
    "row_loop d w3 p 0 st = Inr st1" "length (file_buf st1) = length (file_buf st)"
    "s st1 = s st + k"
    "\<forall>i. i < p \<or> p + w3 \<le> i \<longrightarrow> file_buf st1 ! i = file_buf st ! i"
    "\<forall>j<k. \<forall>t<3. file_buf st1 ! (p + 3 * j + t) = bgr_bytes d (s st + j) ! t"
    by auto
  from Suc.prems st1(2) have "h = (y + 1) + n" "54 + h * strd \<le> length (file_buf st1)"
    by simp_all
  from Suc.IH [OF this(1) Suc.prems(2,3) this(2)] obtain st' where st':
    "rows_loop d w3 h strd (y + 1) st1 = Inr st'" "length (file_buf st') = length (file_buf st1)"
    "s st' = s st1 + n * k"
    "\<forall>i. i < 54 \<or> 54 + (h - (y + 1)) * strd \<le> i \<longrightarrow> file_buf st' ! i = file_buf st1 ! i"
    "\<forall>m<n. \<forall>j<k. \<forall>t<3.
        file_buf st' ! (54 + (h - (y + 1 + m) - 1) * strd + 3 * j + t)
        = bgr_bytes d (s st1 + m * k + j) ! t"
    by blast
  note below = st'(4) [unfolded next_row]
  from below have kept: "\<And>i. p \<le> i \<Longrightarrow> file_buf st' ! i = file_buf st1 ! i"
    by blast
  have outside: "\<forall>i. i < 54 \<or> 54 + (h - y) * strd \<le> i \<longrightarrow> file_buf st' ! i = file_buf st ! i"
  proof (intro allI impI)
    fix i
    assume i: "i < 54 \<or> 54 + (h - y) * strd \<le> i"
    with this_row have "i < 54 \<or> p \<le> i"
      by linarith
    with below have "file_buf st' ! i = file_buf st1 ! i"
      by blast
    also from i this_row have "i < p \<or> p + w3 \<le> i"
      unfolding p_def by linarith
    with st1(4) have "file_buf st1 ! i = file_buf st ! i"
      by blast
    finally show "file_buf st' ! i = file_buf st ! i" .
  qed
  have written: "\<forall>m<Suc n. \<forall>j<k. \<forall>t<3.
      file_buf st' ! (54 + (h - (y + m) - 1) * strd + 3 * j + t)
      = bgr_bytes d (s st + m * k + j) ! t"
  proof (intro allI impI)
    fix m j t :: nat
    assume m: "m < Suc n" and j: "j < k" and t: "t < 3"
    show "file_buf st' ! (54 + (h - (y + m) - 1) * strd + 3 * j + t)
        = bgr_bytes d (s st + m * k + j) ! t"
    proof (cases m)
      case 0
      have "file_buf st' ! (p + 3 * j + t) = file_buf st1 ! (p + 3 * j + t)"
        by (rule kept) simp
      with st1(5) j t 0 show ?thesis
        by (simp add: p_def)
    next
      case (Suc m')
      with m have "m' < n" by simp
      with st'(5) j t have later:
        "file_buf st' ! (54 + (h - (y + 1 + m') - 1) * strd + 3 * j + t)
         = bgr_bytes d (s st1 + m' * k + j) ! t"
        by blast
      have idx: "y + 1 + m' = y + m" and src: "s st1 + m' * k + j = s st + m * k + j"
        by (simp_all add: Suc st1(3))
      from later show ?thesis
        unfolding idx src .
    qed
  qed
  from st1(1-3) st'(1-3) \<open>y < h\<close> outside written show ?case
    by (simp add: rows_loop_step and_then_Inr p_def)
qed

text \<open>The encoder as a whole: on a canvas with at least one pixel it returns a buffer
  of \<open>54 + stride * height\<close> bytes that starts with the 54 header bytes.\<close>

lemma toArrayBuffer_returns:
  assumes "1 \<le> width c" and "1 \<le> height c"
  shows "\<exists>buf. toArrayBuffer c = Inr buf
           \<and> length buf = 54 + stride (width c) * height c
           \<and> (\<forall>i<54. buf ! i = header_bytes (width c) (height c) ! i)"
proof -
  from assms obtain d where d: "getImageData c (width c) (height c) = Inr d"
    by (simp add: getImageData_def)
  then have "length d = width c * height c * 4"
    by (rule getImageData_length)
  then have mod4: "length d mod 4 = 0"
    by simp
  let ?st = "\<lparr>file_buf = header_bytes (width c) (height c)
                          @ replicate (stride (width c) * height c) 0,
              pos = 54, s = 0\<rparr>"
  have "height c = 0 + height c" "width c * 3 = 3 * width c" "width c * 3 \<le> stride (width c)"
    "54 + height c * stride (width c) \<le> length (file_buf ?st)"
    by (simp_all add: stride_eq length_header_bytes)
  from rows_loop_writes [OF this, of d] obtain st' where
    "rows_loop d (width c * 3) (height c) (stride (width c)) 0 ?st = Inr st'"
    "length (file_buf st') = length (file_buf ?st)"
    "\<forall>i<54. file_buf st' ! i = file_buf ?st ! i"
    by blast
  with d mod4 show ?thesis
    by (simp add: toArrayBuffer_unfold and_then_Inr length_header_bytes nth_append)
qed

lemma toArrayBuffer_ok:
  assumes "valid c"
  shows "\<exists>buf. toArrayBuffer c = Inr buf
           \<and> length buf = 54 + stride (width c) * height c
           \<and> (\<forall>i<54. buf ! i = header_bytes (width c) (height c) ! i)"
  using assms by (intro toArrayBuffer_returns) (simp_all add: valid_def)

section \<open>Bytes and numbers\<close>

lemma le32_sum: "(v::nat) mod 256 + 256 * (v div 256 mod 256) + 65536 * (v div 65536 mod 256)
   + 16777216 * (v div 16777216 mod 256) = v mod 4294967296"
proof -
  have a: "\<And>n::nat. n mod 65536 = n mod 256 + 256 * (n div 256 mod 256)"
    using mod_mult2_eq [of _ 256 256] by simp
  have b: "\<And>n::nat. n mod 4294967296 = n mod 65536 + 65536 * (n div 65536 mod 65536)"
    using mod_mult2_eq [of _ 65536 65536] by simp
  have c: "v div 65536 div 256 = v div 16777216"
    by (simp add: div_mult2_eq [symmetric])
  show ?thesis
    by (simp add: b [of v] a [of v] a [of "v div 65536"] c)
qed

lemma byte_low: "a < 256 \<Longrightarrow> (a + 256 * k) mod 256 = (a::nat)"
  by simp

lemma byte_high: "a < 256 \<Longrightarrow> (a + 256 * k) div 256 = (k::nat)"
  by simp

lemma channels:
  fixes a b c d :: nat
  assumes "a < 256" "b < 256" "c < 256"
  defines "v \<equiv> a + 256 * b + 65536 * c + 16777216 * d"
  shows "v mod 256 = a" "v div 256 mod 256 = b" "v div 65536 mod 256 = c"
proof -
  have e: "v = a + 256 * (b + 256 * (c + 256 * d))"
    by (simp add: v_def)
  show "v mod 256 = a"
    unfolding e using assms(1) by (rule byte_low)
  have d1: "v div 256 = b + 256 * (c + 256 * d)"
    unfolding e using assms(1) by (rule byte_high)
  show "v div 256 mod 256 = b"
    unfolding d1 using assms(2) by (rule byte_low)
  have "v div 65536 = v div 256 div 256"
    by (simp add: div_mult2_eq [symmetric])
  also have "\<dots> = c + 256 * d"
    unfolding d1 using assms(2) by (rule byte_high)
  finally show "v div 65536 mod 256 = c"
    using assms(3) by (simp only: byte_low)
qed

lemma unat_byte: "unat (of_nat (v mod 256) :: u8) = v mod 256"
  by (simp add: unat_of_nat)

lemma getUint32_le32:
  "buf ! off = le32 v ! 0 \<Longrightarrow> buf ! (off + 1) = le32 v ! 1 \<Longrightarrow> buf ! (off + 2) = le32 v ! 2 \<Longrightarrow>
   buf ! (off + 3) = le32 v ! 3 \<Longrightarrow> getUint32 buf off = v mod 4294967296"
  by (simp add: getUint32_def le32_def unat_byte le32_sum)

lemma header_nth:
  "header_bytes w h ! 0 = 66" "header_bytes w h ! 1 = 77"
  "header_bytes w h ! 2 = le32 (54 + stride w * h) ! 0"
  "header_bytes w h ! 3 = le32 (54 + stride w * h) ! 1"
  "header_bytes w h ! 4 = le32 (54 + stride w * h) ! 2"
  "header_bytes w h ! 5 = le32 (54 + stride w * h) ! 3"
  "header_bytes w h ! 6 = 0" "header_bytes w h ! 7 = 0"
  "header_bytes w h ! 8 = 0" "header_bytes w h ! 9 = 0"
  "header_bytes w h ! 10 = 54" "header_bytes w h ! 11 = 0"
  "header_bytes w h ! 12 = 0" "header_bytes w h ! 13 = 0"
  by (simp_all add: header_bytes_def le16_def le32_def)


section \<open>What the loops read\<close>

lemma ushr_byte:
  "ushr v 8 mod 256 = v div 256 mod 256" "ushr v 16 mod 256 = v div 65536 mod 256"
proof -
  have "ushr v 8 mod 256 = take_bit 8 (drop_bit 8 (take_bit 32 v))"
    by (simp add: ushr_def take_bit_eq_mod drop_bit_eq_div)
  also have "\<dots> = take_bit 8 (drop_bit 8 v)"
    by (simp add: drop_bit_take_bit)
  finally show "ushr v 8 mod 256 = v div 256 mod 256"
    by (simp add: take_bit_eq_mod drop_bit_eq_div)
  have "ushr v 16 mod 256 = take_bit 8 (drop_bit 16 (take_bit 32 v))"
    by (simp add: ushr_def take_bit_eq_mod drop_bit_eq_div)
  also have "\<dots> = take_bit 8 (drop_bit 16 v)"
    by (simp add: drop_bit_take_bit)
  finally show "ushr v 16 mod 256 = v div 65536 mod 256"
    by (simp add: take_bit_eq_mod drop_bit_eq_div)
qed

lemma px_cong:
  assumes len: "length d1 = length d2"
    and rgb: "\<forall>i<length d1. i mod 4 \<noteq> 3 \<longrightarrow> d1 ! i = d2 ! i"
  shows "(case data32_at d1 i of None \<Rightarrow> (0, 0, 0)
          | Some v \<Rightarrow> (v mod 256, ushr v 8 mod 256, ushr v 16 mod 256))
       = (case data32_at d2 i of None \<Rightarrow> (0, 0, 0)
          | Some v \<Rightarrow> (v mod 256, ushr v 8 mod 256, ushr v 16 mod 256))"
proof (cases "i < length d1 div 4")
  case False
  with len show ?thesis by (simp add: data32_at_def)
next
  case True
  then have "4 * i < length d1" "4 * i + 1 < length d1" "4 * i + 2 < length d1"
    by simp_all
  moreover have "(4 * i) mod 4 \<noteq> 3" "(4 * i + 1) mod 4 \<noteq> 3" "(4 * i + 2) mod 4 \<noteq> 3"
    by presburger+
  ultimately have eq: "d1 ! (4 * i) = d2 ! (4 * i)" "d1 ! (4 * i + 1) = d2 ! (4 * i + 1)"
    "d1 ! (4 * i + 2) = d2 ! (4 * i + 2)"
    using rgb by blast+
  have lt: "\<And>b :: u8. unat b < 256"
    using unsigned_less [where 'b = 8] by simp
  have ch: "\<And>(a::u8) (b::u8) (c::u8) (e::u8).
    (let v = unat a + 256 * unat b + 65536 * unat c + 16777216 * unat e
     in (v mod 256, ushr v 8 mod 256, ushr v 16 mod 256)) = (unat a, unat b, unat c)"
    by (simp add: ushr_byte Let_def channels [OF lt lt lt])
  from True len show ?thesis
    using ch [unfolded Let_def] eq by (simp add: data32_at_def)
qed


lemma row_loop_cong_rgb:
  assumes px: "\<And>i. (case data32_at d1 i of None \<Rightarrow> (0, 0, 0)
          | Some v \<Rightarrow> (v mod 256, ushr v 8 mod 256, ushr v 16 mod 256))
       = (case data32_at d2 i of None \<Rightarrow> (0, 0, 0)
          | Some v \<Rightarrow> (v mod 256, ushr v 8 mod 256, ushr v 16 mod 256))"
  shows "row_loop d1 w3 p x st = row_loop d2 w3 p x st"
proof (induction "w3 - x" arbitrary: x st rule: less_induct)
  case less
  show ?case
  proof (cases "x < w3")
    case False
    then show ?thesis by (simp add: row_loop_done)
  next
    case True
    then have IH: "row_loop d1 w3 p (x + 3) = row_loop d2 w3 p (x + 3)"
      by (intro ext less) simp
    show ?thesis
      by (simp only: row_loop.simps [of d1 w3 p x st] row_loop.simps [of d2 w3 p x st] px IH)
  qed
qed

lemma rows_loop_cong_rgb:
  assumes px: "\<And>i. (case data32_at d1 i of None \<Rightarrow> (0, 0, 0)
          | Some v \<Rightarrow> (v mod 256, ushr v 8 mod 256, ushr v 16 mod 256))
       = (case data32_at d2 i of None \<Rightarrow> (0, 0, 0)
          | Some v \<Rightarrow> (v mod 256, ushr v 8 mod 256, ushr v 16 mod 256))"
  shows "rows_loop d1 w3 h strd y st = rows_loop d2 w3 h strd y st"
proof (induction "h - y" arbitrary: y st rule: less_induct)
  case less
  show ?case
  proof (cases "y < h")
    case False
    then show ?thesis by (simp add: rows_loop_done)
  next
    case True
    then have IH: "rows_loop d1 w3 h strd (y + 1) = rows_loop d2 w3 h strd (y + 1)"
      by (intro ext less) simp
    from True show ?thesis
      by (simp only: rows_loop_step row_loop_cong_rgb [of d1 d2, OF px] IH)
  qed
qed

section \<open>Where the pixels go\<close>

text \<open>Inside the pixel buffer the three bytes stored for a pixel are its blue, green
  and red bytes.\<close>

lemma bgr_bytes_inside:
  assumes "n < length d div 4"
  shows "bgr_bytes d n = [d ! (4 * n + 2), d ! (4 * n + 1), d ! (4 * n)]"
proof -
  have lt: "\<And>b :: u8. unat b < 256"
    using unsigned_less [where 'b = 8] by simp
  have ch: "\<And>(a::u8) (b::u8) (c::u8) (e::u8).
    (let v = unat a + 256 * unat b + 65536 * unat c + 16777216 * unat e
     in (v mod 256, ushr v 8 mod 256, ushr v 16 mod 256)) = (unat a, unat b, unat c)"
    by (simp add: ushr_byte Let_def channels [OF lt lt lt])
  from assms have "rgb_at d n = (unat (d ! (4 * n)), unat (d ! (4 * n + 1)), unat (d ! (4 * n + 2)))"
    using ch [unfolded Let_def] by (simp add: rgb_at_def data32_at_def)
  then show ?thesis
    by (simp add: bgr_bytes_def lt)
qed

text \<open>For a valid canvas the pixel of column \<open>x\<close> and row \<open>y\<close> is stored as blue, green,
  red at offset \<open>54 + (height - 1 - y) * stride + 3 * x\<close>, the stride being the one the
  code computes.\<close>

lemma pixel_placed:
  assumes "valid c" and "x < width c" and "y < height c"
  shows "\<exists>buf. toArrayBuffer c = Inr buf
     \<and> buf ! (54 + (height c - 1 - y) * stride (width c) + 3 * x)
         = imageData c ! (4 * (y * width c + x) + 2)
     \<and> buf ! (54 + (height c - 1 - y) * stride (width c) + 3 * x + 1)
         = imageData c ! (4 * (y * width c + x) + 1)
     \<and> buf ! (54 + (height c - 1 - y) * stride (width c) + 3 * x + 2)
         = imageData c ! (4 * (y * width c + x))"
proof -
  let ?w = "width c" and ?h = "height c" and ?d = "imageData c"
  let ?st = "\<lparr>file_buf = header_bytes ?w ?h @ replicate (stride ?w * ?h) 0, pos = 54, s = 0\<rparr>"
  have "?h = 0 + ?h" "?w * 3 = 3 * ?w" "?w * 3 \<le> stride ?w"
    "54 + ?h * stride ?w \<le> length (file_buf ?st)"
    by (simp_all add: stride_eq length_header_bytes)
  from rows_loop_writes [OF this, of ?d] obtain st' where st':
    "rows_loop ?d (?w * 3) ?h (stride ?w) 0 ?st = Inr st'"
    "\<forall>m<?h. \<forall>j<?w. \<forall>t<3.
        file_buf st' ! (54 + (?h - (0 + m) - 1) * stride ?w + 3 * j + t)
        = bgr_bytes ?d (s ?st + m * ?w + j) ! t"
    by blast
  from assms(2,3) st'(2) have at: "\<And>t. t < 3 \<Longrightarrow>
      file_buf st' ! (54 + (?h - 1 - y) * stride ?w + 3 * x + t) = bgr_bytes ?d (y * ?w + x) ! t"
    by fastforce
  from assms(2) have "y * ?w + x < (y + 1) * ?w"
    by simp
  also from assms(3) have "(y + 1) * ?w \<le> ?h * ?w"
    by (intro mult_le_mono1) simp
  finally have "y * ?w + x < length ?d div 4"
    using assms(1) by (simp add: valid_def mult.commute)
  then have px: "bgr_bytes ?d (y * ?w + x)
      = [?d ! (4 * (y * ?w + x) + 2), ?d ! (4 * (y * ?w + x) + 1), ?d ! (4 * (y * ?w + x))]"
    by (rule bgr_bytes_inside)
  from at [of 0] at [of 1] at [of 2] have
    "file_buf st' ! (54 + (?h - 1 - y) * stride ?w + 3 * x) = ?d ! (4 * (y * ?w + x) + 2)"
    "file_buf st' ! (54 + (?h - 1 - y) * stride ?w + 3 * x + 1) = ?d ! (4 * (y * ?w + x) + 1)"
    "file_buf st' ! (54 + (?h - 1 - y) * stride ?w + 3 * x + 2) = ?d ! (4 * (y * ?w + x))"
    unfolding px by simp_all
  with st'(1) show ?thesis
    by (simp add: toArrayBuffer_valid [OF assms(1)] and_then_Inr)
qed

section \<open>Runs on small canvases\<close>

text \<open>The encoder evaluated on a few canvases, by unfolding the loops.\<close>

lemma replicate_numeral_Cons:
  fixes z :: u8
  shows "replicate (numeral n) z = z # replicate (pred_numeral n) z"
  unfolding numeral_eq_Suc by simp

lemmas encode_simps =
  stride_def ushr_def and_then_Inr and_then_Inl rows_loop.simps row_loop.simps
  setUint8_def data32_at_def replicate_numeral_Cons header_bytes_def le16_def le32_def

lemma encode_1x1:
  "toArrayBuffer \<lparr>width = 1, height = 1, imageData = [1, 2, 3, 255]\<rparr> =
     Inr [66, 77, 57, 0, 0, 0, 0, 0, 0, 0, 54, 0, 0, 0,
          40, 0, 0, 0, 1, 0, 0, 0, 1, 0, 0, 0, 1, 0, 24, 0, 0, 0, 0, 0, 3, 0, 0, 0,
          35, 46, 0, 0, 35, 46, 0, 0, 0, 0, 0, 0, 0, 0, 0, 0,
          3, 2, 1]"
  by (simp add: toArrayBuffer_valid valid_def encode_simps cong: and_then_weak_cong)

lemma encode_2x1:
  "toArrayBuffer \<lparr>width = 2, height = 1,
                   imageData = [255, 0, 0, 255, 0, 255, 0, 255]\<rparr> =
     Inr [66, 77, 60, 0, 0, 0, 0, 0, 0, 0, 54, 0, 0, 0,
          40, 0, 0, 0, 2, 0, 0, 0, 1, 0, 0, 0, 1, 0, 24, 0, 0, 0, 0, 0, 6, 0, 0, 0,
          35, 46, 0, 0, 35, 46, 0, 0, 0, 0, 0, 0, 0, 0, 0, 0,
          0, 0, 255, 0, 255, 0]"
  by (simp add: toArrayBuffer_valid valid_def encode_simps cong: and_then_weak_cong)



section \<open>Results\<close>

subsection \<open>Output length and stride\<close>

text \<open>
  Claim C1: for every valid input the returned buffer has \<open>54 + stride * height\<close> bytes
  with \<open>stride = ceil(width*3/4)*4\<close>, so 58 bytes for a 1 by 1 canvas.

  The code allocates \<open>54 + 3 * width * height\<close> bytes, since its stride is
  \<open>3 * width\<close> (lemma \<open>stride_eq\<close>).  On the valid 1 by 1 canvas it returns 57 bytes
  where the claim asks for 58.
\<close>

theorem length_1x1_is_57:
  "valid \<lparr>width = 1, height = 1, imageData = [1, 2, 3, 255]\<rparr>
   \<and> (\<exists>buf. toArrayBuffer \<lparr>width = 1, height = 1, imageData = [1, 2, 3, 255]\<rparr> = Inr buf
          \<and> length buf = 57)
   \<and> 54 + stride_spec 1 * 1 = 58"
  using encode_1x1 by (simp add: valid_def stride_spec_def)

text \<open>
  Claim C2: for every width at least 1, the stride formula of the encoder,
  \<open>floor((24*width + 23) / 24) * 3\<close>, equals \<open>width*3\<close> rounded up to the next multiple
  of 4.

  The formula of line 49 is \<open>3 * width\<close>, with no rounding: at width 1 it gives 3 and
  the rounded row length is 4.
\<close>

theorem stride_1_unpadded: "stride 1 = 3 \<and> stride_spec 1 = 4"
  by (simp add: stride_def stride_spec_def)

subsection \<open>Pixel rows\<close>

text \<open>
  Claim C3: every source pixel is stored as (B, G, R) in destination row
  \<open>height - 1 - y\<close>, each row starting at a stride-aligned offset after byte 54; for the
  2 by 1 canvas with pixels (255,0,0,255), (0,255,0,255) the bytes at offset 54 are
  00 00 FF, 00 FF 00 and then 2 padding bytes that complete a stride of 8.

  On that canvas the code returns the six pixel bytes in the order claimed and nothing
  after them: the buffer has 60 bytes, not the 62 that a stride of 8 takes.
\<close>

theorem rows_2x1_unpadded:
  "valid \<lparr>width = 2, height = 1, imageData = [255, 0, 0, 255, 0, 255, 0, 255]\<rparr>
   \<and> (\<exists>buf. toArrayBuffer \<lparr>width = 2, height = 1,
                 imageData = [255, 0, 0, 255, 0, 255, 0, 255]\<rparr> = Inr buf
          \<and> drop 54 buf = [0, 0, 255, 0, 255, 0] \<and> length buf = 60)
   \<and> 54 + stride_spec 2 * 1 = 62"
  using encode_2x1 by (simp add: valid_def stride_spec_def)

subsection \<open>The DIB header\<close>

text \<open>
  Claim C4: the DIB header holds, little-endian, the header size 40, the width, the
  height, 1 plane, 24 bits per pixel, compression 0, the pixel array size, a horizontal
  and a vertical resolution equal to a pixels-per-metre constant for about 72 DPI
  (about 2835), and 8 zero bytes.

  On the 1 by 1 canvas every field is as claimed except the two resolutions: the
  code writes \<open>0x2e23 = 11811\<close> pixels per metre (300 DPI) where its comment and the
  claim say about 72 DPI.
\<close>

theorem resolution_1x1_is_11811:
  "\<exists>buf. toArrayBuffer \<lparr>width = 1, height = 1, imageData = [1, 2, 3, 255]\<rparr> = Inr buf
      \<and> getUint32 buf 14 = 40 \<and> getUint32 buf 18 = 1 \<and> getUint32 buf 22 = 1
      \<and> getUint16 buf 26 = 1 \<and> getUint16 buf 28 = 24 \<and> getUint32 buf 30 = 0
      \<and> getUint32 buf 34 = 3
      \<and> getUint32 buf 38 = 11811 \<and> getUint32 buf 42 = 11811
      \<and> getUint32 buf 46 = 0 \<and> getUint32 buf 50 = 0"
  using encode_1x1 by (simp add: getUint32_def getUint16_def)

subsection \<open>The file header\<close>

text \<open>
  Claim C5, as amended: for every valid input the encoder returns a buffer whose bytes
  0 and 1 are \<open>0x42 0x4D\<close>, whose little-endian 32-bit integer at offset 2 is the length
  of the buffer modulo \<open>2^32\<close> (hence the length itself for every buffer shorter than
  \<open>2^32\<close> bytes), whose bytes 6 to 9 are zero and whose little-endian 32-bit integer
  at offset 10 is 54.
\<close>

theorem file_header_fields:
  assumes "valid c"
  shows "\<exists>buf. toArrayBuffer c = Inr buf
           \<and> buf ! 0 = 0x42 \<and> buf ! 1 = 0x4D
           \<and> getUint32 buf 2 = length buf mod 2 ^ 32
           \<and> buf ! 6 = 0 \<and> buf ! 7 = 0 \<and> buf ! 8 = 0 \<and> buf ! 9 = 0
           \<and> getUint32 buf 10 = 54"
proof -
  from toArrayBuffer_ok [OF assms] obtain buf where buf:
    "toArrayBuffer c = Inr buf" "length buf = 54 + stride (width c) * height c"
    "\<forall>i<54. buf ! i = header_bytes (width c) (height c) ! i"
    by blast
  from buf(3) have hd: "\<And>i. i < 54 \<Longrightarrow> buf ! i = header_bytes (width c) (height c) ! i"
    by blast
  have "getUint32 buf 2 = (54 + stride (width c) * height c) mod 4294967296"
    by (rule getUint32_le32) (simp_all add: hd header_nth)
  moreover have "getUint32 buf 10 = 54"
    by (simp add: getUint32_def hd header_nth)
  moreover have "buf ! 0 = 0x42" "buf ! 1 = 0x4D" "buf ! 6 = 0" "buf ! 7 = 0" "buf ! 8 = 0"
    "buf ! 9 = 0"
    by (simp_all add: hd header_nth del: One_nat_def)
  ultimately show ?thesis
    using buf(1,2) by simp
qed

theorem file_header_fields_witness:
  "valid \<lparr>width = 1, height = 2, imageData = [1, 2, 3, 255, 4, 5, 6, 0]\<rparr>
   \<and> (\<exists>buf. toArrayBuffer \<lparr>width = 1, height = 2, imageData = [1, 2, 3, 255, 4, 5, 6, 0]\<rparr>
             = Inr buf
          \<and> buf ! 0 = 0x42 \<and> buf ! 1 = 0x4D
          \<and> getUint32 buf 2 = length buf mod 2 ^ 32
          \<and> buf ! 6 = 0 \<and> buf ! 7 = 0 \<and> buf ! 8 = 0 \<and> buf ! 9 = 0
          \<and> getUint32 buf 10 = 54)"
proof -
  have v: "valid \<lparr>width = 1, height = 2, imageData = [1, 2, 3, 255, 4, 5, 6, 0]\<rparr>"
    by (simp add: valid_def)
  from file_header_fields [OF v] v show ?thesis
    by blast
qed

text \<open>
  The claim as stated, with the integer at offset 2 equal to the length for every valid
  input, fails where the length does not fit in 32 bits: a valid 65536 by 21846 canvas
  gives a buffer of 4295098422 bytes whose length field reads 131126.
\<close>

theorem length_field_wraps_at_4GiB:
  "valid \<lparr>width = 65536, height = 21846, imageData = replicate 5726797824 0\<rparr>
   \<and> toArrayBuffer \<lparr>width = 65536, height = 21846, imageData = replicate 5726797824 0\<rparr>
       \<noteq> Inl RangeError
   \<and> toArrayBuffer \<lparr>width = 65536, height = 21846, imageData = replicate 5726797824 0\<rparr>
       \<noteq> Inl IndexSizeError
   \<and> getUint32 (projr (toArrayBuffer
         \<lparr>width = 65536, height = 21846, imageData = replicate 5726797824 0\<rparr>)) 2
       = 131126
   \<and> length (projr (toArrayBuffer
         \<lparr>width = 65536, height = 21846, imageData = replicate 5726797824 0\<rparr>))
       = 4295098422"
proof -
  let ?c = "\<lparr>width = 65536, height = 21846, imageData = replicate 5726797824 (0::u8)\<rparr>"
  have v: "valid ?c"
    by (simp add: valid_def)
  from toArrayBuffer_ok [OF v] obtain buf where buf:
    "toArrayBuffer ?c = Inr buf" "length buf = 54 + stride (width ?c) * height ?c"
    "\<forall>i<54. buf ! i = header_bytes (width ?c) (height ?c) ! i"
    by blast
  from buf(3) have hd: "\<And>i. i < 54 \<Longrightarrow> buf ! i = header_bytes 65536 21846 ! i"
    by simp
  have "getUint32 buf 2 = (54 + stride 65536 * 21846) mod 4294967296"
    by (rule getUint32_le32) (simp_all add: hd header_nth)
  then have "getUint32 buf 2 = 131126"
    by (simp add: stride_eq)
  with v buf(1,2) show ?thesis
    by (simp add: stride_eq)
qed

subsection \<open>Alpha\<close>

text \<open>
  Claim C8: the alpha channel is never inspected.  For two valid canvases of the same
  width and height whose pixel buffers agree on every byte that is not an alpha byte
  (every index \<open>i\<close> with \<open>i mod 4 \<noteq> 3\<close>), the encoder returns the same buffer.
\<close>

theorem alpha_is_ignored:
  assumes "valid c" and "valid c'"
    and "width c' = width c" and "height c' = height c"
    and "\<forall>i<length (imageData c). i mod 4 \<noteq> 3 \<longrightarrow> imageData c' ! i = imageData c ! i"
  shows "\<exists>buf. toArrayBuffer c = Inr buf \<and> toArrayBuffer c' = Inr buf"
proof -
  from assms(1-4) have len: "length (imageData c') = length (imageData c)"
    by (simp add: valid_def)
  with assms(5) have
    "\<forall>i<length (imageData c'). i mod 4 \<noteq> 3 \<longrightarrow> imageData c' ! i = imageData c ! i"
    by simp
  with len have "\<And>i. (case data32_at (imageData c') i of None \<Rightarrow> (0, 0, 0)
          | Some v \<Rightarrow> (v mod 256, ushr v 8 mod 256, ushr v 16 mod 256))
       = (case data32_at (imageData c) i of None \<Rightarrow> (0, 0, 0)
          | Some v \<Rightarrow> (v mod 256, ushr v 8 mod 256, ushr v 16 mod 256))"
    by (rule px_cong)
  then have "\<And>w3 h strd y st. rows_loop (imageData c') w3 h strd y st
      = rows_loop (imageData c) w3 h strd y st"
    by (rule rows_loop_cong_rgb)
  with assms(3,4) have "toArrayBuffer c' = toArrayBuffer c"
    by (simp add: toArrayBuffer_valid [OF assms(1)] toArrayBuffer_valid [OF assms(2)])
  moreover from toArrayBuffer_ok [OF assms(1)]
  obtain buf where "toArrayBuffer c = Inr buf"
    by blast
  ultimately show ?thesis
    by simp
qed

theorem alpha_is_ignored_witness:
  "valid \<lparr>width = 1, height = 1, imageData = [1, 2, 3, 255]\<rparr>
   \<and> valid \<lparr>width = 1, height = 1, imageData = [1, 2, 3, 0]\<rparr>
   \<and> (\<exists>buf. toArrayBuffer \<lparr>width = 1, height = 1, imageData = [1, 2, 3, 255]\<rparr> = Inr buf
          \<and> toArrayBuffer \<lparr>width = 1, height = 1, imageData = [1, 2, 3, 0]\<rparr> = Inr buf)"
proof -
  let ?c = "\<lparr>width = 1, height = 1, imageData = [1, 2, 3, 255 :: u8]\<rparr>"
  let ?c' = "\<lparr>width = 1, height = 1, imageData = [1, 2, 3, 0 :: u8]\<rparr>"
  have v: "valid ?c" "valid ?c'"
    by (simp_all add: valid_def)
  have "\<forall>i<length (imageData ?c). i mod 4 \<noteq> 3 \<longrightarrow> imageData ?c' ! i = imageData ?c ! i"
  proof (intro allI impI)
    fix i :: nat
    assume "i < length (imageData ?c)" and "i mod 4 \<noteq> 3"
    then have "i = 0 \<or> i = 1 \<or> i = 2"
      by simp presburger
    then show "imageData ?c' ! i = imageData ?c ! i"
      by auto
  qed
  from alpha_is_ignored [OF v _ _ this] v show ?thesis
    by simp
qed

subsection \<open>The empty canvas\<close>

text \<open>
  Claim C6: if the width or the height is 0 (they are unsigned, so never negative), the
  encoder fails and produces no output buffer.  The failure is the \<open>IndexSizeError\<close>
  that \<^verbatim>\<open>getImageData\<close> raises on the empty rectangle at line 44, before any buffer is
  allocated; it is what the specification calls \<open>InvalidDimensions\<close>.
\<close>

theorem empty_canvas_fails:
  assumes "width c = 0 \<or> height c = 0"
  shows "toArrayBuffer c = Inl IndexSizeError"
  using assms by (simp add: toArrayBuffer_unfold getImageData_empty and_then_Inl)

theorem empty_canvas_fails_witness:
  "(width \<lparr>width = 0, height = 2, imageData = []\<rparr> = 0
      \<or> height \<lparr>width = 0, height = 2, imageData = []\<rparr> = 0)
   \<and> toArrayBuffer \<lparr>width = 0, height = 2, imageData = []\<rparr> = Inl IndexSizeError"
  using empty_canvas_fails [of "\<lparr>width = 0, height = 2, imageData = []\<rparr>"]
  by simp




end
